theory Spec2Isabelle
  imports Complex_Main
begin

section \<open>Data model\<close>

text \<open>
  A configuration is a one-dimensional numpy array of floats; it is modelled as a list of
  reals. So the model covers finite values, computed exactly: rounding, infinities and
  NaN are outside it. An obstacle is a pair of points, and so is a motion handed to the
  intersection test.
\<close>

type_synonym config = "real list"
type_synonym segment = "config \<times> config"

text \<open>The exceptions the planner can raise.\<close>

datatype py_error = NotImplementedError | AttributeError | IndexError | ValueError

text \<open>
  The three classes of \<^verbatim>\<open>rrt.py\<close>: the base class \<^verbatim>\<open>RRT\<close> and its two subclasses.
  \<^verbatim>\<open>DubinsRRT.__init__\<close> stores one more field, the turning radius.
\<close>

datatype rrt_class = RRT | GeometricRRT | DubinsRRT real

record planner =
  cls :: rrt_class
  statespace_lo :: config
  statespace_hi :: config
  x_init :: config
  x_goal :: config
  obstacles :: "segment list"

text \<open>
  Functions the module imports and does not define: \<^verbatim>\<open>path_length\<close> and
  \<^verbatim>\<open>path_sample\<close> of the dubins package (of \<^verbatim>\<open>path_sample\<close> only component 0 of
  the returned pair, the list of sampled points, is ever read) and
  \<^verbatim>\<open>line_line_intersection\<close> of \<^verbatim>\<open>utils\<close>. They are parameters of the model.
\<close>

record externals =
  path_length :: "config \<Rightarrow> config \<Rightarrow> real \<Rightarrow> real"
  path_sample :: "config \<Rightarrow> config \<Rightarrow> real \<Rightarrow> real \<Rightarrow> config list"
  line_line_intersection :: "segment \<Rightarrow> segment \<Rightarrow> bool"

text \<open>
  numpy's module-level generator, the only state \<^verbatim>\<open>solve\<close> shares with its caller:
  the stream of the standard-uniform draws it has still to hand out.
\<close>

type_synonym rng = "nat \<Rightarrow> real"

text \<open>The planning tree: the tables \<^verbatim>\<open>V\<close> and \<^verbatim>\<open>P\<close> and the logical size \<^verbatim>\<open>n\<close>.\<close>

record tree =
  V :: "config list"
  P :: "int list"
  n :: nat

text \<open>
  What \<^verbatim>\<open>solve\<close> has computed when its loop ends (its "intermediate outputs", which it
  hands to the plotting code): \<^verbatim>\<open>success\<close>, the tree, \<^verbatim>\<open>solution_path\<close> (bound only
  on success) and the state in which the global generator is left.
\<close>

record outcome =
  success :: bool
  final_tree :: tree
  solution_path :: "config list option"
  np_random :: rng

section \<open>numpy primitives\<close>

text \<open>Elementwise subtraction of two one-dimensional arrays, with broadcasting.\<close>

definition np_sub :: "config \<Rightarrow> config \<Rightarrow> py_error + config" where
  "np_sub x1 x2 =
     (if length x1 = length x2 then Inr (map2 (\<lambda>a b. a - b) x1 x2)
      else if length x1 = 1 then Inr (map (\<lambda>b. hd x1 - b) x2)
      else if length x2 = 1 then Inr (map (\<lambda>a. a - hd x2) x1)
      else Inl ValueError)"

definition np_norm :: "config \<Rightarrow> real" where
  "np_norm v = sqrt (sum_list (map (\<lambda>a. a * a) v))"

text \<open>\<^verbatim>\<open>np.argmin\<close>: the first index of the least entry.\<close>

fun argmin_from :: "real \<Rightarrow> nat \<Rightarrow> nat \<Rightarrow> real list \<Rightarrow> nat" where
  "argmin_from best ibest i [] = ibest"
| "argmin_from best ibest i (d # ds) =
     (if d < best then argmin_from d i (Suc i) ds else argmin_from best ibest (Suc i) ds)"

definition np_argmin :: "real list \<Rightarrow> py_error + nat" where
  "np_argmin ds = (case ds of [] \<Rightarrow> Inl ValueError | d # ds' \<Rightarrow> Inr (argmin_from d 0 1 ds'))"

definition np_arctan2 :: "real \<Rightarrow> real \<Rightarrow> real" where
  "np_arctan2 y x =
     (if 0 < x then arctan (y / x)
      else if x < 0 \<and> 0 \<le> y then arctan (y / x) + pi
      else if x < 0 then arctan (y / x) - pi
      else if 0 < y then pi / 2
      else if y < 0 then - (pi / 2)
      else 0)"

text \<open>\<^verbatim>\<open>np.apply_along_axis(f, 1, V, x)\<close>: \<open>f\<close> on every row; the first exception ends it.\<close>

fun apply_along_axis :: "(config \<Rightarrow> py_error + real) \<Rightarrow> config list \<Rightarrow> py_error + real list" where
  "apply_along_axis f [] = Inr []"
| "apply_along_axis f (v # vs) =
     (case f v of
        Inl e \<Rightarrow> Inl e
      | Inr d \<Rightarrow> (case apply_along_axis f vs of Inl e \<Rightarrow> Inl e | Inr ds \<Rightarrow> Inr (d # ds)))"

text \<open>Python indexing of a sequence of length \<open>len\<close> by an integer: negative indices count from the end.\<close>

definition in_bounds :: "nat \<Rightarrow> int \<Rightarrow> bool" where
  "in_bounds len i = (- int len \<le> i \<and> i < int len)"

definition py_index :: "nat \<Rightarrow> int \<Rightarrow> nat" where
  "py_index len i = (if i < 0 then nat (int len + i) else nat i)"

text \<open>\<^verbatim>\<open>np.random.random_sample()\<close> and \<^verbatim>\<open>np.random.uniform(lo, hi)\<close>: one draw each.\<close>

definition random_sample :: "rng \<Rightarrow> real \<times> rng" where
  "random_sample g = (g 0, \<lambda>i. g (Suc i))"

definition uniform :: "real \<Rightarrow> real \<Rightarrow> rng \<Rightarrow> real \<times> rng" where
  "uniform lo hi g = (lo + (hi - lo) * fst (random_sample g), snd (random_sample g))"

text \<open>The list comprehension of line 84, over \<^verbatim>\<open>zip(statespace_lo, statespace_hi)\<close>.\<close>

fun sample_box :: "(real \<times> real) list \<Rightarrow> rng \<Rightarrow> config \<times> rng" where
  "sample_box [] g = ([], g)"
| "sample_box ((lo, hi) # bs) g =
     (fst (uniform lo hi g) # fst (sample_box bs (snd (uniform lo hi g))),
      snd (sample_box bs (snd (uniform lo hi g))))"

section \<open>The steering methods\<close>

text \<open>
  \<^verbatim>\<open>distance\<close> is defined by the two subclasses only: on the base class the attribute
  lookup fails.
\<close>

fun distance :: "externals \<Rightarrow> rrt_class \<Rightarrow> config \<Rightarrow> config \<Rightarrow> py_error + real" where
  "distance ext RRT x1 x2 = Inl AttributeError"
| "distance ext GeometricRRT x1 x2 =
     (case np_sub x1 x2 of Inl e \<Rightarrow> Inl e | Inr d \<Rightarrow> Inr (np_norm d))"
| "distance ext (DubinsRRT turning_radius) x1 x2 = Inr (path_length ext x1 x2 turning_radius)"

fun find_nearest :: "externals \<Rightarrow> rrt_class \<Rightarrow> config list \<Rightarrow> config \<Rightarrow> py_error + nat" where
  "find_nearest ext RRT Vn x = Inl NotImplementedError"
| "find_nearest ext GeometricRRT Vn x =
     (case apply_along_axis (\<lambda>v. distance ext GeometricRRT v x) Vn of
        Inl e \<Rightarrow> Inl e
      | Inr Vx_dist \<Rightarrow> np_argmin Vx_dist)"
| "find_nearest ext (DubinsRRT turning_radius) Vn x =
     (case apply_along_axis (\<lambda>v. distance ext (DubinsRRT turning_radius) v x) Vn of
        Inl e \<Rightarrow> Inl e
      | Inr Vx_dist \<Rightarrow> np_argmin Vx_dist)"

fun steer_towards :: "externals \<Rightarrow> rrt_class \<Rightarrow> config \<Rightarrow> config \<Rightarrow> real \<Rightarrow> py_error + config" where
  "steer_towards ext RRT x y eps = Inl NotImplementedError"
| "steer_towards ext GeometricRRT x y eps =
     (case distance ext GeometricRRT x y of
        Inl e \<Rightarrow> Inl e
      | Inr d \<Rightarrow>
          if d < eps then Inr y
          else if length y < 2 \<or> length x < 2 then Inl IndexError
          else Inr [x ! 0 + eps * cos (np_arctan2 (y ! 1 - x ! 1) (y ! 0 - x ! 0)),
                    x ! 1 + eps * sin (np_arctan2 (y ! 1 - x ! 1) (y ! 0 - x ! 0))])"
| "steer_towards ext (DubinsRRT turning_radius) x y eps =
     (case distance ext (DubinsRRT turning_radius) x y of
        Inl e \<Rightarrow> Inl e
      | Inr d \<Rightarrow>
          if d < eps then Inr y
          else if length (path_sample ext x y (1001 / 1000 * turning_radius) eps) < 2
          then Inl IndexError
          else Inr (path_sample ext x y (1001 / 1000 * turning_radius) eps ! 1))"

text \<open>The loop over the obstacles, for one motion: false at the first wall it meets.\<close>

fun clear_of :: "externals \<Rightarrow> segment \<Rightarrow> segment list \<Rightarrow> bool" where
  "clear_of ext motion [] = True"
| "clear_of ext motion (line # lines) =
     (if line_line_intersection ext motion line then False else clear_of ext motion lines)"

text \<open>The loop over the consecutive points of the sampled Dubins path.\<close>

fun clear_polyline :: "externals \<Rightarrow> config list \<Rightarrow> segment list \<Rightarrow> bool" where
  "clear_polyline ext (p # q # pts) obs =
     (if clear_of ext (take 2 p, take 2 q) obs then clear_polyline ext (q # pts) obs else False)"
| "clear_polyline ext pts obs = True"

text \<open>
  \<^verbatim>\<open>is_free_motion\<close>. The straight-line planner tests the one segment from \<open>x1\<close> to
  \<open>x2\<close>; the Dubins planner samples the path at the default resolution \<open>pi / 6\<close>,
  appends \<open>x2\<close> and tests the segments between the first two coordinates of
  consecutive points.
\<close>

fun is_free_motion :: "externals \<Rightarrow> rrt_class \<Rightarrow> segment list \<Rightarrow> config \<Rightarrow> config \<Rightarrow> py_error + bool" where
  "is_free_motion ext RRT obs x1 x2 = Inl NotImplementedError"
| "is_free_motion ext GeometricRRT obs x1 x2 = Inr (clear_of ext (x1, x2) obs)"
| "is_free_motion ext (DubinsRRT turning_radius) obs x1 x2 =
     Inr (clear_polyline ext
            (path_sample ext x1 x2 turning_radius (turning_radius * (pi / 6)) @ [x2]) obs)"

section \<open>solve\<close>

text \<open>
  The \<^verbatim>\<open>while\<close> loop of lines 99 to 101. Nothing bounds it syntactically, so it is a
  partial function: \<open>None\<close> is the loop that never ends, as it does on tables whose
  chain of parents meets no row equal to \<open>xi\<close>. \<open>acc\<close> is \<^verbatim>\<open>solution_path\<close> before it
  is reversed. The test \<^verbatim>\<open>np.array_equal\<close> is equality of the rows, which is what it
  computes on finite values; on a row that holds a NaN it is false even against the row
  itself, so that with such an initial state the walk would pass the root without
  stopping. No statement below says that the walk ends.
\<close>

partial_function (option) chase_parents ::
  "config list \<Rightarrow> int list \<Rightarrow> config \<Rightarrow> int \<Rightarrow> config list \<Rightarrow> (py_error + config list) option" where
  "chase_parents Vt Pt xi idx_cur acc =
     (if \<not> in_bounds (length Vt) idx_cur then Some (Inl IndexError)
      else if Vt ! py_index (length Vt) idx_cur = xi then Some (Inr acc)
      else if \<not> in_bounds (length Pt) idx_cur then Some (Inl IndexError)
      else if \<not> in_bounds (length Vt) (Pt ! py_index (length Pt) idx_cur) then Some (Inl IndexError)
      else chase_parents Vt Pt xi (Pt ! py_index (length Pt) idx_cur)
             (acc @ [Vt ! py_index (length Vt) (Pt ! py_index (length Pt) idx_cur)]))"

text \<open>Lines 97 to 102: the path from the node just appended, reversed.\<close>

definition reconstruct :: "planner \<Rightarrow> tree \<Rightarrow> (py_error + config list) option" where
  "reconstruct p t =
     (case chase_parents (V t) (P t) (x_init p) (int (n t) - 1) [x_goal p] of
        None \<Rightarrow> None
      | Some (Inl e) \<Rightarrow> Some (Inl e)
      | Some (Inr acc) \<Rightarrow> Some (Inr (rev acc)))"

text \<open>Lines 80 to 84: the coin flip and the sample.\<close>

definition sample :: "planner \<Rightarrow> real \<Rightarrow> rng \<Rightarrow> config \<times> rng" where
  "sample p goal_bias g =
     (if fst (random_sample g) < goal_bias then (x_goal p, snd (random_sample g))
      else sample_box (zip (statespace_lo p) (statespace_hi p)) (snd (random_sample g)))"

text \<open>
  Lines 91 to 93: the row assignment \<^verbatim>\<open>V[n,:] = x_new\<close> (out of range it raises; a
  one-element value is broadcast over the row), then \<^verbatim>\<open>P[n] = idx_near\<close> and \<^verbatim>\<open>n = n + 1\<close>.
\<close>

definition append_node :: "nat \<Rightarrow> tree \<Rightarrow> config \<Rightarrow> nat \<Rightarrow> py_error + tree" where
  "append_node state_dim t x_new idx_near =
     (if length (V t) \<le> n t then Inl IndexError
      else if length x_new \<noteq> state_dim \<and> length x_new \<noteq> 1 then Inl ValueError
      else if length (P t) \<le> n t then Inl IndexError
      else Inr \<lparr>V = (V t)[n t := (if length x_new = state_dim then x_new
                                   else replicate state_dim (hd x_new))],
               P = (P t)[n t := int idx_near],
               n = n t + 1\<rparr>)"

text \<open>
  Lines 85 to 104 of one pass through the \<^verbatim>\<open>for\<close> loop, for the sample \<open>x_rand\<close>:
  the tree after the pass, and the reversed path when the pass ends in \<^verbatim>\<open>break\<close>.
\<close>

definition extend_tree ::
  "externals \<Rightarrow> planner \<Rightarrow> real \<Rightarrow> tree \<Rightarrow> config
     \<Rightarrow> (py_error + tree \<times> config list option) option" where
  "extend_tree ext p eps t x_rand =
     (case find_nearest ext (cls p) (take (n t) (V t)) x_rand of
        Inl e \<Rightarrow> Some (Inl e)
      | Inr idx_near \<Rightarrow>
          if length (V t) \<le> idx_near then Some (Inl IndexError)
          else
            (case steer_towards ext (cls p) (V t ! idx_near) x_rand eps of
               Inl e \<Rightarrow> Some (Inl e)
             | Inr x_new \<Rightarrow>
                 (case is_free_motion ext (cls p) (obstacles p) (V t ! idx_near) x_new of
                    Inl e \<Rightarrow> Some (Inl e)
                  | Inr False \<Rightarrow> Some (Inr (t, None))
                  | Inr True \<Rightarrow>
                      (case append_node (length (x_init p)) t x_new idx_near of
                         Inl e \<Rightarrow> Some (Inl e)
                       | Inr t' \<Rightarrow>
                           if x_new = x_goal p then
                             (case reconstruct p t' of
                                None \<Rightarrow> None
                              | Some (Inl e) \<Rightarrow> Some (Inl e)
                              | Some (Inr path) \<Rightarrow> Some (Inr (t', Some path)))
                           else Some (Inr (t', None))))))"

text \<open>One whole pass (lines 80 to 104): the draws, then the extension.\<close>

definition iteration ::
  "externals \<Rightarrow> planner \<Rightarrow> real \<Rightarrow> real \<Rightarrow> tree \<Rightarrow> rng
     \<Rightarrow> (py_error + tree \<times> rng \<times> config list option) option" where
  "iteration ext p eps goal_bias t g =
     (case extend_tree ext p eps t (fst (sample p goal_bias g)) of
        None \<Rightarrow> None
      | Some (Inl e) \<Rightarrow> Some (Inl e)
      | Some (Inr (t', po)) \<Rightarrow> Some (Inr (t', snd (sample p goal_bias g), po)))"

text \<open>
  The \<^verbatim>\<open>for\<close> loop: \<open>k\<close> passes are left to run (the body never reads the loop
  variable). An exception ends the run; what the generator has handed out by then is
  not recorded.
\<close>

fun for_loop ::
  "externals \<Rightarrow> planner \<Rightarrow> real \<Rightarrow> real \<Rightarrow> nat \<Rightarrow> tree \<Rightarrow> rng \<Rightarrow> (py_error + outcome) option" where
  "for_loop ext p eps goal_bias 0 t g =
     Some (Inr \<lparr>success = False, final_tree = t, solution_path = None, np_random = g\<rparr>)"
| "for_loop ext p eps goal_bias (Suc k) t g =
     (case iteration ext p eps goal_bias t g of
        None \<Rightarrow> None
      | Some (Inl e) \<Rightarrow> Some (Inl e)
      | Some (Inr (t', g', Some path)) \<Rightarrow>
          Some (Inr \<lparr>success = True, final_tree = t', solution_path = Some path, np_random = g'\<rparr>)
      | Some (Inr (t', g', None)) \<Rightarrow> for_loop ext p eps goal_bias k t' g')"

text \<open>Lines 60 to 67: the tables as allocated, with the root written into row 0.\<close>

definition init_tree :: "planner \<Rightarrow> nat \<Rightarrow> tree" where
  "init_tree p max_iters =
     \<lparr>V = (replicate max_iters (replicate (length (x_init p)) 0))[0 := x_init p],
      P = replicate max_iters (- 1),
      n = 1\<rparr>"

text \<open>
  \<^verbatim>\<open>solve\<close>, up to the end of its loop. With \<^verbatim>\<open>max_iters = 0\<close> the table has no row 0
  and line 61 raises.
\<close>

definition solve ::
  "externals \<Rightarrow> planner \<Rightarrow> real \<Rightarrow> nat \<Rightarrow> real \<Rightarrow> rng \<Rightarrow> (py_error + outcome) option" where
  "solve ext p eps max_iters goal_bias g =
     (if max_iters = 0 then Some (Inl IndexError)
      else for_loop ext p eps goal_bias max_iters (init_tree p max_iters) g)"

section \<open>Properties of the tree and of a run\<close>

text \<open>
  The tables have one length, and the logical size lies between 1 and that length.
\<close>

definition tables_ok :: "tree \<Rightarrow> bool" where
  "tables_ok t = (length (V t) = length (P t) \<and> 1 \<le> n t \<and> n t \<le> length (P t))"

text \<open>The parent invariant of the comment at lines 64 to 66.\<close>

definition parents_ok :: "tree \<Rightarrow> bool" where
  "parents_ok t = (P t ! 0 = - 1 \<and> (\<forall>i \<in> {1..<n t}. 0 \<le> P t ! i \<and> P t ! i < int i))"

text \<open>The node reached from node \<open>i\<close> by \<open>k\<close> parent links.\<close>

fun ancestor :: "int list \<Rightarrow> nat \<Rightarrow> nat \<Rightarrow> nat" where
  "ancestor Pt 0 i = i"
| "ancestor Pt (Suc k) i = ancestor Pt k (nat (Pt ! i))"

text \<open>What a caller of \<^verbatim>\<open>solve\<close> sees of a run, the generator left aside.\<close>

definition observable ::
  "(py_error + outcome) option \<Rightarrow> (py_error + bool \<times> tree \<times> config list option) option" where
  "observable r =
     (case r of
        None \<Rightarrow> None
      | Some (Inl e) \<Rightarrow> Some (Inl e)
      | Some (Inr out) \<Rightarrow> Some (Inr (success out, final_tree out, solution_path out)))"

text \<open>
  The same call of \<^verbatim>\<open>solve\<close> made a second time in the same process, after a first
  one that came back: it starts from the generator the first one left.
\<close>

definition solve_again ::
  "externals \<Rightarrow> planner \<Rightarrow> real \<Rightarrow> nat \<Rightarrow> real \<Rightarrow> rng \<Rightarrow> (py_error + outcome) option" where
  "solve_again ext p eps max_iters goal_bias g =
     (case solve ext p eps max_iters goal_bias g of
        Some (Inr out) \<Rightarrow> solve ext p eps max_iters goal_bias (np_random out)
      | r \<Rightarrow> r)"

section \<open>Environments and problems for the examples\<close>

text \<open>
  A planar problem without walls, for the straight-line planner: Scenario A of the
  specification is \<open>planar [0, 0] [1, 1]\<close>.
\<close>

definition planar :: "config \<Rightarrow> config \<Rightarrow> planner" where
  "planar xi xg =
     \<lparr>cls = GeometricRRT, statespace_lo = [0, 0], statespace_hi = [1, 1],
      x_init = xi, x_goal = xg, obstacles = []\<rparr>"

text \<open>
  Scenario B of the specification: the same problem with a wall across the straight line
  from the initial state to the goal.
\<close>

definition walled :: "config \<Rightarrow> config \<Rightarrow> planner" where
  "walled xi xg = (planar xi xg)\<lparr>obstacles := [([0, 1], [1, 0])]\<rparr>"

text \<open>A generator whose second draw is 0.9 and whose other draws are 0.\<close>

definition burst :: rng where
  "burst i = (if i = 1 then 9 / 10 else 0)"

text \<open>
  Two instances of the imported functions for concrete runs: one in which no motion meets
  a wall and one in which every motion does. The Dubins functions are those of a car
  that is already where it should be.
\<close>

definition open_env :: externals where
  "open_env = \<lparr>path_length = (\<lambda>x1 x2 r. 0), path_sample = (\<lambda>x1 x2 r step. [x1]),
               line_line_intersection = (\<lambda>motion line. False)\<rparr>"

definition walled_env :: externals where
  "walled_env = \<lparr>path_length = (\<lambda>x1 x2 r. 0), path_sample = (\<lambda>x1 x2 r step. [x1]),
                 line_line_intersection = (\<lambda>motion line. True)\<rparr>"

section \<open>Auxiliary facts\<close>

lemma argmin_from_bound: "ibest < i \<Longrightarrow> argmin_from best ibest i ds < i + length ds"
proof (induction ds arbitrary: best ibest i)
  case Nil
  then show ?case by simp
next
  case (Cons d ds)
  have "argmin_from d i (Suc i) ds < Suc i + length ds"
    by (rule Cons.IH) simp
  moreover have "argmin_from best ibest (Suc i) ds < Suc i + length ds"
    by (rule Cons.IH) (use Cons.prems in simp)
  ultimately show ?case by simp
qed

lemma np_argmin_bound: "np_argmin ds = Inr i \<Longrightarrow> i < length ds"
  using argmin_from_bound [of 0 1] by (auto simp: np_argmin_def split: list.splits)

lemma apply_along_axis_length: "apply_along_axis f vs = Inr ds \<Longrightarrow> length ds = length vs"
  by (induction vs arbitrary: ds) (auto split: sum.splits)

lemma find_nearest_bound: "find_nearest ext c Vn x = Inr i \<Longrightarrow> i < length Vn"
  by (cases c) (auto split: sum.splits dest!: np_argmin_bound apply_along_axis_length)

lemma append_node_tables:
  assumes "tables_ok t" and "append_node d t x idx = Inr t'"
  shows "tables_ok t'" and "n t' = Suc (n t)" and "V t' ! 0 = V t ! 0"
  using assms by (auto simp: append_node_def tables_ok_def split: if_splits)

lemma append_node_parents:
  assumes "tables_ok t" and "parents_ok t" and "idx < n t" and "append_node d t x idx = Inr t'"
  shows "parents_ok t'"
proof -
  from assms(4) have P': "P t' = (P t)[n t := int idx]" and n': "n t' = Suc (n t)"
    and lt: "n t < length (P t)"
    by (auto simp: append_node_def split: if_splits)
  from assms(1) have pos: "1 \<le> n t" by (simp add: tables_ok_def)
  have "P t' ! 0 = - 1"
    using assms(2) pos by (simp add: P' parents_ok_def)
  moreover have "0 \<le> P t' ! i \<and> P t' ! i < int i" if "i \<in> {1..<n t'}" for i
  proof (cases "i = n t")
    case True
    then show ?thesis using lt assms(3) by (simp add: P')
  next
    case False
    then have "i \<in> {1..<n t}" using that n' by auto
    then show ?thesis using assms(2) False by (simp add: P' parents_ok_def)
  qed
  ultimately show ?thesis by (simp add: parents_ok_def)
qed

lemma extend_cases:
  assumes "extend_tree ext p eps t x_rand = Some (Inr (t', po))"
  shows "t' = t \<and> po = None \<or>
         (\<exists>idx x_new. idx < n t \<and> idx < length (V t) \<and>
            find_nearest ext (cls p) (take (n t) (V t)) x_rand = Inr idx \<and>
            steer_towards ext (cls p) (V t ! idx) x_rand eps = Inr x_new \<and>
            is_free_motion ext (cls p) (obstacles p) (V t ! idx) x_new = Inr True \<and>
            append_node (length (x_init p)) t x_new idx = Inr t' \<and>
            (if x_new = x_goal p then \<exists>path. po = Some path \<and> reconstruct p t' = Some (Inr path)
             else po = None))"
proof -
  obtain idx where fn: "find_nearest ext (cls p) (take (n t) (V t)) x_rand = Inr idx"
    using assms by (auto simp: extend_tree_def split: sum.splits)
  from find_nearest_bound [OF fn] have b: "idx < n t" "idx < length (V t)" by simp_all
  show ?thesis
    using assms b fn
    by (auto simp: extend_tree_def split: sum.splits bool.splits if_splits option.splits)
qed


lemma extend_preserves:
  assumes "tables_ok t" and "parents_ok t" and "extend_tree ext p eps t x_rand = Some (Inr (t', po))"
  shows "tables_ok t'" and "parents_ok t'" and "V t' ! 0 = V t ! 0" and "n t \<le> n t'"
  using extend_cases [OF assms(3)] assms(1,2)
  by (auto dest: append_node_tables append_node_parents)

lemma iteration_extend:
  "iteration ext p eps gb t g = Some (Inr (t', g', po)) \<longleftrightarrow>
     extend_tree ext p eps t (fst (sample p gb g)) = Some (Inr (t', po)) \<and> g' = snd (sample p gb g)"
  by (auto simp: iteration_def split: option.splits sum.splits)

lemma for_loop_outcome:
  assumes "tables_ok t" and "parents_ok t"
    and "for_loop ext p eps gb k t g = Some (Inr out)"
  shows "tables_ok (final_tree out) \<and> parents_ok (final_tree out) \<and>
         V (final_tree out) ! 0 = V t ! 0 \<and> n t \<le> n (final_tree out) \<and>
         (if success out then solution_path out \<noteq> None \<and> n t < n (final_tree out)
          else solution_path out = None)"
  using assms
proof (induction k arbitrary: t g)
  case 0
  then show ?case by auto
next
  case (Suc k)
  from Suc.prems(3) obtain t' g' po where
    it: "iteration ext p eps gb t g = Some (Inr (t', g', po))"
    by (auto split: option.splits sum.splits)
  then have ex: "extend_tree ext p eps t (fst (sample p gb g)) = Some (Inr (t', po))"
    by (simp add: iteration_extend)
  note pres = extend_preserves [OF Suc.prems(1,2) ex]
  show ?case
  proof (cases po)
    case None
    with it Suc.prems(3) have "for_loop ext p eps gb k t' g' = Some (Inr out)" by simp
    from Suc.IH [OF pres(1,2) this] pres(3,4) show ?thesis by (auto split: if_splits)
  next
    case (Some path)
    with it Suc.prems(3)
    have out: "out = \<lparr>success = True, final_tree = t', solution_path = Some path, np_random = g'\<rparr>"
      by simp
    from extend_cases [OF ex] Some have "n t < n t'"
      by (auto dest: append_node_tables(2) [OF Suc.prems(1)])
    then show ?thesis using pres out by simp
  qed
qed

lemma init_tree_ok:
  assumes "0 < max_iters"
  shows "tables_ok (init_tree p max_iters)" and "parents_ok (init_tree p max_iters)"
  using assms by (simp_all add: init_tree_def tables_ok_def parents_ok_def)


section \<open>The steering capabilities\<close>

text \<open>
  Claim C7, as amended. On the base class \<^verbatim>\<open>RRT\<close>, \<^verbatim>\<open>find_nearest\<close>,
  \<^verbatim>\<open>steer_towards\<close> and \<^verbatim>\<open>is_free_motion\<close> raise NotImplementedError.
  \<^verbatim>\<open>distance\<close> is not a method of the base class: calling it fails in the attribute
  lookup, with AttributeError.
\<close>

theorem base_class_capabilities:
  "find_nearest ext RRT Vn x = Inl NotImplementedError \<and>
   steer_towards ext RRT x y eps = Inl NotImplementedError \<and>
   is_free_motion ext RRT obs x1 x2 = Inl NotImplementedError \<and>
   distance ext RRT x1 x2 = Inl AttributeError"
  by simp

text \<open>
  Claim C7 as stated fails for \<^verbatim>\<open>distance\<close>: on the base class it does not end in
  the not-implemented error.
\<close>

theorem base_class_distance_counterexample:
  "distance open_env RRT [0, 0] [1, 1] \<noteq> Inl NotImplementedError"
  by simp

text \<open>
  Claim C6. For the straight-line and for the Dubins planner, and every positive
  \<open>eps\<close>: when the distance from \<open>x\<close> to \<open>y\<close> is below \<open>eps\<close>,
  \<^verbatim>\<open>steer_towards\<close> returns \<open>y\<close> itself. In particular a target at distance zero
  is returned at once, before any bearing is computed; for the straight-line planner the
  distance from a configuration to itself is zero.
\<close>

theorem steer_towards_snaps:
  assumes "c = GeometricRRT \<or> c = DubinsRRT r" and "0 < eps"
  shows "(distance ext c x y = Inr d \<and> d < eps \<longrightarrow> steer_towards ext c x y eps = Inr y) \<and>
         (distance ext c x x = Inr 0 \<longrightarrow> steer_towards ext c x x eps = Inr x) \<and>
         steer_towards ext GeometricRRT x x eps = Inr x"
proof -
  have snap: "steer_towards ext c x' y' eps = Inr y'"
    if "distance ext c x' y' = Inr d'" "d' < eps" for x' y' d'
    using assms(1) that by auto
  have "np_sub x x = Inr (map (\<lambda>a. 0) x)"
    by (simp add: np_sub_def map2_map_map [symmetric] zip_same_conv_map comp_def)
  moreover have "np_norm (map (\<lambda>a. 0) x) = 0"
    by (induction x) (simp_all add: np_norm_def)
  ultimately have "distance ext GeometricRRT x x = Inr 0"
    by simp
  then have "steer_towards ext GeometricRRT x x eps = Inr x"
    using assms(2) by simp
  then show ?thesis
    using snap assms(2) by blast
qed

theorem steer_towards_snaps_witness:
  "steer_towards open_env GeometricRRT [0, 0] [1, 1] 2 = Inr [1, 1] \<and>
   steer_towards open_env (DubinsRRT 1) [0, 0, 0] [0, 0, 0] 2 = Inr [0, 0, 0]"
proof -
  have d: "distance open_env GeometricRRT [0, 0] [1, 1] = Inr (sqrt 2)"
    by (simp add: np_sub_def np_norm_def)
  have lt: "sqrt 2 < (2::real)"
    by (rule real_less_lsqrt) simp_all
  have g: "GeometricRRT = GeometricRRT \<or> GeometricRRT = DubinsRRT 1" by simp
  have u: "DubinsRRT 1 = GeometricRRT \<or> DubinsRRT 1 = DubinsRRT 1" by simp
  have z: "distance open_env (DubinsRRT 1) [0, 0, 0] [0, 0, 0] = Inr 0"
    by (simp add: open_env_def)
  have pos: "(0::real) < 2" by simp
  from steer_towards_snaps [OF g pos, where ext = open_env and x = "[0, 0]" and y = "[1, 1]"
      and d = "sqrt 2"] d lt
  have "steer_towards open_env GeometricRRT [0, 0] [1, 1] 2 = Inr [1, 1]" by blast
  moreover from steer_towards_snaps [OF u pos, where ext = open_env and x = "[0, 0, 0]"] z
  have "steer_towards open_env (DubinsRRT 1) [0, 0, 0] [0, 0, 0] 2 = Inr [0, 0, 0]" by blast
  ultimately show ?thesis by blast
qed

section \<open>Unfolding one pass\<close>

lemma iteration_unfold:
  assumes fn: "find_nearest ext (cls p) (take (n t) (V t)) (fst (sample p gb g)) = Inr idx"
    and st: "steer_towards ext (cls p) (V t ! idx) (fst (sample p gb g)) eps = Inr x_new"
    and fr: "is_free_motion ext (cls p) (obstacles p) (V t ! idx) x_new = Inr free"
  shows "iteration ext p eps gb t g =
         (if free then
            (case append_node (length (x_init p)) t x_new idx of
               Inl e \<Rightarrow> Some (Inl e)
             | Inr t' \<Rightarrow>
                 if x_new = x_goal p then
                   (case reconstruct p t' of
                      None \<Rightarrow> None
                    | Some (Inl e) \<Rightarrow> Some (Inl e)
                    | Some (Inr path) \<Rightarrow> Some (Inr (t', snd (sample p gb g), Some path)))
                 else Some (Inr (t', snd (sample p gb g), None)))
          else Some (Inr (t, snd (sample p gb g), None)))"
proof -
  from find_nearest_bound [OF fn] have "\<not> length (V t) \<le> idx" by simp
  then show ?thesis
    by (simp add: iteration_def extend_tree_def fn st fr split: sum.splits option.splits)
qed

lemma sample_goal: "g 0 < gb \<Longrightarrow> sample p gb g = (x_goal p, \<lambda>i. g (Suc i))"
  by (simp add: sample_def random_sample_def)

lemma sqrt2_lt_2: "sqrt 2 < (2::real)"
  by (rule real_less_lsqrt) simp_all

text \<open>
  Claim C4. A pass in which \<^verbatim>\<open>is_free_motion\<close> answers false leaves \<^verbatim>\<open>V\<close>,
  \<^verbatim>\<open>P\<close> and \<^verbatim>\<open>n\<close> as they were: the pass ends with the tree it started from, and
  without a path.
\<close>

theorem rejected_candidate_leaves_tree:
  assumes "find_nearest ext (cls p) (take (n t) (V t)) (fst (sample p gb g)) = Inr idx_near"
    and "steer_towards ext (cls p) (V t ! idx_near) (fst (sample p gb g)) eps = Inr x_new"
    and "is_free_motion ext (cls p) (obstacles p) (V t ! idx_near) x_new = Inr False"
  shows "iteration ext p eps gb t g = Some (Inr (t, snd (sample p gb g), None))"
  using iteration_unfold [OF assms] by simp


section \<open>Concrete passes\<close>

lemma goal_pass_A:
  assumes "g 0 < gb"
  shows "iteration ext (planar [0, 0] [1, 1]) 2 gb (init_tree (planar [0, 0] [1, 1]) (Suc (Suc m))) g =
         Some (Inr (\<lparr>V = [0, 0] # [1, 1] # replicate m [0, 0],
                      P = - 1 # 0 # replicate m (- 1), n = 2\<rparr>,
                    \<lambda>i. g (Suc i), Some [[0, 0], [1, 1]]))"
proof -
  let ?p = "planar [0, 0] [1, 1]"
  let ?t = "init_tree ?p (Suc (Suc m))"
  let ?t' = "\<lparr>V = [0, 0] # [1, 1] # replicate m [0, 0], P = - 1 # 0 # replicate m (- 1),
             n = Suc (Suc 0)\<rparr>"
  have t: "?t = \<lparr>V = [0, 0] # [0, 0] # replicate m [0, 0],
                 P = - 1 # - 1 # replicate m (- 1), n = 1\<rparr>"
    by (simp add: init_tree_def planar_def)
  have s: "sample ?p gb g = ([1, 1], \<lambda>i. g (Suc i))"
    using assms sample_goal [where g = g and gb = gb and p = ?p] by (simp add: planar_def)
  have fn: "find_nearest ext GeometricRRT [[0, 0]] [1, 1] = Inr 0"
    by (simp add: np_sub_def np_norm_def np_argmin_def)
  have st: "steer_towards ext GeometricRRT [0, 0] [1, 1] 2 = Inr [1, 1]"
    using sqrt2_lt_2 by (simp add: np_sub_def np_norm_def)
  have fr: "is_free_motion ext GeometricRRT [] [0, 0] [1, 1] = Inr True"
    by simp
  have ch: "chase_parents (V ?t') (P ?t') [0, 0] 1 [[1, 1]] = Some (Inr [[1, 1], [0, 0]])"
    by (subst chase_parents.simps, simp add: in_bounds_def py_index_def)
       (subst chase_parents.simps, simp add: in_bounds_def py_index_def)
  have rc: "reconstruct ?p ?t' = Some (Inr [[0, 0], [1, 1]])"
    using ch by (simp add: reconstruct_def planar_def)
  have ex: "extend_tree ext ?p 2 ?t [1, 1] = Some (Inr (?t', Some [[0, 0], [1, 1]]))"
    unfolding t extend_tree_def using fn st fr rc
    by (simp add: planar_def append_node_def
          del: find_nearest.simps steer_towards.simps is_free_motion.simps)
  show ?thesis
    unfolding iteration_def s using ex by (simp add: numeral_2_eq_2)
qed

lemma scenario_A_run:
  assumes "g 0 < gb"
  shows "solve ext (planar [0, 0] [1, 1]) 2 (Suc (Suc m)) gb g =
         Some (Inr \<lparr>success = True,
                    final_tree = \<lparr>V = [0, 0] # [1, 1] # replicate m [0, 0],
                                  P = - 1 # 0 # replicate m (- 1), n = 2\<rparr>,
                    solution_path = Some [[0, 0], [1, 1]],
                    np_random = (\<lambda>i. g (Suc i))\<rparr>)"
  using assms goal_pass_A [where g = g and gb = gb and ext = ext and m = m]
  by (simp add: solve_def)

lemma goal_pass_same:
  assumes "g 0 < gb" and "0 < eps"
  shows "iteration ext (planar [0, 0] [0, 0]) eps gb (init_tree (planar [0, 0] [0, 0]) (Suc (Suc m))) g =
         Some (Inr (\<lparr>V = [0, 0] # [0, 0] # replicate m [0, 0],
                      P = - 1 # 0 # replicate m (- 1), n = 2\<rparr>,
                    \<lambda>i. g (Suc i), Some [[0, 0]]))"
proof -
  let ?p = "planar [0, 0] [0, 0]"
  let ?t = "init_tree ?p (Suc (Suc m))"
  let ?t' = "\<lparr>V = [0, 0] # [0, 0] # replicate m [0, 0], P = - 1 # 0 # replicate m (- 1),
             n = Suc (Suc 0)\<rparr>"
  have t: "?t = \<lparr>V = [0, 0] # [0, 0] # replicate m [0, 0],
                 P = - 1 # - 1 # replicate m (- 1), n = 1\<rparr>"
    by (simp add: init_tree_def planar_def)
  have s: "sample ?p gb g = ([0, 0], \<lambda>i. g (Suc i))"
    using assms sample_goal [where g = g and gb = gb and p = ?p] by (simp add: planar_def)
  have fn: "find_nearest ext GeometricRRT [[0, 0]] [0, 0] = Inr 0"
    by (simp add: np_sub_def np_norm_def np_argmin_def)
  have st: "steer_towards ext GeometricRRT [0, 0] [0, 0] eps = Inr [0, 0]"
    using assms(2) by (simp add: np_sub_def np_norm_def)
  have fr: "is_free_motion ext GeometricRRT [] [0, 0] [0, 0] = Inr True"
    by simp
  have ch: "chase_parents (V ?t') (P ?t') [0, 0] 1 [[0, 0]] = Some (Inr [[0, 0]])"
    by (subst chase_parents.simps, simp add: in_bounds_def py_index_def)
  have rc: "reconstruct ?p ?t' = Some (Inr [[0, 0]])"
    using ch by (simp add: reconstruct_def planar_def)
  have ex: "extend_tree ext ?p eps ?t [0, 0] = Some (Inr (?t', Some [[0, 0]]))"
    unfolding t extend_tree_def using fn st fr rc
    by (simp add: planar_def append_node_def
          del: find_nearest.simps steer_towards.simps is_free_motion.simps)
  show ?thesis
    unfolding iteration_def s using ex by (simp add: numeral_2_eq_2)
qed

lemma scenario_B_pass:
  assumes "g 0 < gb"
  shows "find_nearest walled_env (cls (walled [0, 0] [1, 1]))
           (take (n (init_tree (walled [0, 0] [1, 1]) (Suc m)))
              (V (init_tree (walled [0, 0] [1, 1]) (Suc m))))
           (fst (sample (walled [0, 0] [1, 1]) gb g)) = Inr 0"
    and "steer_towards walled_env (cls (walled [0, 0] [1, 1]))
           (V (init_tree (walled [0, 0] [1, 1]) (Suc m)) ! 0)
           (fst (sample (walled [0, 0] [1, 1]) gb g)) 2 = Inr [1, 1]"
    and "is_free_motion walled_env (cls (walled [0, 0] [1, 1])) (obstacles (walled [0, 0] [1, 1]))
           (V (init_tree (walled [0, 0] [1, 1]) (Suc m)) ! 0) [1, 1] = Inr False"
    and "snd (sample (walled [0, 0] [1, 1]) gb g) = (\<lambda>i. g (Suc i))"
proof -
  have s: "sample (walled [0, 0] [1, 1]) gb g = ([1, 1], \<lambda>i. g (Suc i))"
    using assms sample_goal [where g = g and gb = gb and p = "walled [0, 0] [1, 1]"]
    by (simp add: planar_def walled_def)
  show "find_nearest walled_env (cls (walled [0, 0] [1, 1]))
           (take (n (init_tree (walled [0, 0] [1, 1]) (Suc m)))
              (V (init_tree (walled [0, 0] [1, 1]) (Suc m))))
           (fst (sample (walled [0, 0] [1, 1]) gb g)) = Inr 0"
    unfolding s by (simp add: walled_def planar_def init_tree_def np_sub_def np_norm_def np_argmin_def)
  show "steer_towards walled_env (cls (walled [0, 0] [1, 1]))
           (V (init_tree (walled [0, 0] [1, 1]) (Suc m)) ! 0)
           (fst (sample (walled [0, 0] [1, 1]) gb g)) 2 = Inr [1, 1]"
    unfolding s using sqrt2_lt_2
    by (simp add: walled_def planar_def init_tree_def np_sub_def np_norm_def)
  show "is_free_motion walled_env (cls (walled [0, 0] [1, 1])) (obstacles (walled [0, 0] [1, 1]))
           (V (init_tree (walled [0, 0] [1, 1]) (Suc m)) ! 0) [1, 1] = Inr False"
    by (simp add: walled_def planar_def init_tree_def walled_env_def)
  show "snd (sample (walled [0, 0] [1, 1]) gb g) = (\<lambda>i. g (Suc i))"
    unfolding s by simp
qed

theorem rejected_candidate_leaves_tree_witness:
  "iteration walled_env (walled [0, 0] [1, 1]) 2 1 (init_tree (walled [0, 0] [1, 1]) 3) (\<lambda>i. 0) =
   Some (Inr (init_tree (walled [0, 0] [1, 1]) 3, \<lambda>i. 0, None))"
proof -
  have z: "(0::real) < 1" by simp
  have three: "(3::nat) = Suc 2" by simp
  note b = scenario_B_pass(1-3) [where g = "\<lambda>i. 0" and gb = 1 and m = 2, OF z, folded three]
  note b4 = scenario_B_pass(4) [where g = "\<lambda>i. 0" and gb = 1, OF z]
  from rejected_candidate_leaves_tree [OF b(1) b(2) b(3)] show ?thesis
    unfolding b4 .
qed


section \<open>The run as a whole\<close>

lemma for_loop_success:
  assumes "for_loop ext p eps gb k t g = Some (Inr out)" and "success out"
  shows "\<exists>t0 idx. append_node (length (x_init p)) t0 (x_goal p) idx = Inr (final_tree out)"
  using assms
proof (induction k arbitrary: t g)
  case 0
  then show ?case by auto
next
  case (Suc k)
  from Suc.prems(1) obtain t' g' po where
    it: "iteration ext p eps gb t g = Some (Inr (t', g', po))"
    by (auto split: option.splits sum.splits)
  then have ex: "extend_tree ext p eps t (fst (sample p gb g)) = Some (Inr (t', po))"
    by (simp add: iteration_extend)
  show ?case
  proof (cases po)
    case None
    with it Suc.prems(1) have "for_loop ext p eps gb k t' g' = Some (Inr out)" by simp
    from Suc.IH [OF this Suc.prems(2)] show ?thesis .
  next
    case (Some path)
    with it Suc.prems(1) have "final_tree out = t'" by auto
    moreover from extend_cases [OF ex] Some
    have "\<exists>idx. append_node (length (x_init p)) t (x_goal p) idx = Inr t'"
      by (auto split: if_splits)
    ultimately show ?thesis by auto
  qed
qed

lemma parents_ok_during_append:
  assumes "tables_ok t" and "parents_ok t"
  shows "parents_ok (t\<lparr>V := (V t)[n t := x]\<rparr>)"
    and "parents_ok (t\<lparr>V := (V t)[n t := x], P := (P t)[n t := int idx]\<rparr>)"
proof -
  from assms(1) have "n t \<noteq> 0" by (simp add: tables_ok_def)
  then have "(P t)[n t := int idx] ! 0 = P t ! 0" by simp
  moreover have "(P t)[n t := int idx] ! i = P t ! i" if "i \<in> {1..<n t}" for i
    using that by simp
  ultimately show "parents_ok (t\<lparr>V := (V t)[n t := x], P := (P t)[n t := int idx]\<rparr>)"
    using assms(2) by (simp add: parents_ok_def)
  show "parents_ok (t\<lparr>V := (V t)[n t := x]\<rparr>)"
    using assms(2) by (simp add: parents_ok_def)
qed

text \<open>
  Claim C3. The parent table has \<open>P[0] = -1\<close> and \<open>0 \<le> P[i] < i\<close> for every
  \<open>0 < i < n\<close>: the tables as allocated satisfy it; it still holds between the three
  assignments of an append, which write at index \<open>n\<close> before \<open>n\<close> is increased; every
  pass of the loop that comes back preserves it (the parent written is the index
  \<^verbatim>\<open>find_nearest\<close> chose among the first \<open>n\<close> rows); and so the tree which \<^verbatim>\<open>solve\<close>
  ends with satisfies it.
\<close>

theorem parent_invariant:
  "(0 < max_iters \<longrightarrow> tables_ok (init_tree p max_iters) \<and> parents_ok (init_tree p max_iters)) \<and>
   (tables_ok t \<and> parents_ok t
      \<longrightarrow> parents_ok (t\<lparr>V := (V t)[n t := x_new]\<rparr>) \<and>
          parents_ok (t\<lparr>V := (V t)[n t := x_new], P := (P t)[n t := int idx_near]\<rparr>)) \<and>
   (tables_ok t \<and> parents_ok t \<and> iteration ext p eps gb t g = Some (Inr (t', g', po))
      \<longrightarrow> tables_ok t' \<and> parents_ok t') \<and>
   (solve ext p eps max_iters gb g = Some (Inr out)
      \<longrightarrow> tables_ok (final_tree out) \<and> parents_ok (final_tree out))"
proof (intro conjI impI)
  assume "0 < max_iters"
  then show "tables_ok (init_tree p max_iters)" and "parents_ok (init_tree p max_iters)"
    by (rule init_tree_ok)+
next
  assume a: "tables_ok t \<and> parents_ok t"
  then show "parents_ok (t\<lparr>V := (V t)[n t := x_new]\<rparr>)"
    and "parents_ok (t\<lparr>V := (V t)[n t := x_new], P := (P t)[n t := int idx_near]\<rparr>)"
    by (simp_all add: parents_ok_during_append)
next
  assume a: "tables_ok t \<and> parents_ok t \<and> iteration ext p eps gb t g = Some (Inr (t', g', po))"
  then have "extend_tree ext p eps t (fst (sample p gb g)) = Some (Inr (t', po))"
    by (simp add: iteration_extend)
  with a show "tables_ok t'" and "parents_ok t'"
    by (blast dest: extend_preserves)+
next
  assume s: "solve ext p eps max_iters gb g = Some (Inr out)"
  then have pos: "0 < max_iters"
    by (auto simp: solve_def split: if_splits)
  with s have "for_loop ext p eps gb max_iters (init_tree p max_iters) g = Some (Inr out)"
    by (simp add: solve_def)
  from for_loop_outcome [OF init_tree_ok(1,2) [OF pos] this]
  show "tables_ok (final_tree out)" and "parents_ok (final_tree out)"
    by simp_all
qed

theorem parent_invariant_witness:
  "parents_ok (init_tree (planar [0, 0] [1, 1]) 3) \<and>
   parents_ok ((init_tree (planar [0, 0] [1, 1]) 3)
     \<lparr>V := (V (init_tree (planar [0, 0] [1, 1]) 3))[n (init_tree (planar [0, 0] [1, 1]) 3) := [1, 1]],
      P := (P (init_tree (planar [0, 0] [1, 1]) 3))[n (init_tree (planar [0, 0] [1, 1]) 3) := int 0]\<rparr>) \<and>
   parents_ok \<lparr>V = [[0, 0], [1, 1], [0, 0]], P = [- 1, 0, - 1], n = 2\<rparr>"
proof -
  have three: "(3::nat) = Suc (Suc 1)" by simp
  have z: "(0::real) < 1" by simp
  have it: "iteration open_env (planar [0, 0] [1, 1]) 2 1 (init_tree (planar [0, 0] [1, 1]) 3)
              (\<lambda>i. 0) =
            Some (Inr (\<lparr>V = [[0, 0], [1, 1], [0, 0]], P = [- 1, 0, - 1], n = 2\<rparr>, \<lambda>i. 0,
                       Some [[0, 0], [1, 1]]))"
    using z goal_pass_A [where g = "\<lambda>i. 0" and gb = 1 and ext = open_env and m = 1]
    by (simp add: three)
  have run: "solve open_env (planar [0, 0] [1, 1]) 2 3 1 (\<lambda>i. 0) =
             Some (Inr \<lparr>success = True,
                        final_tree = \<lparr>V = [[0, 0], [1, 1], [0, 0]], P = [- 1, 0, - 1], n = 2\<rparr>,
                        solution_path = Some [[0, 0], [1, 1]], np_random = (\<lambda>i. 0)\<rparr>)"
    using z scenario_A_run [where g = "\<lambda>i. 0" and gb = 1 and ext = open_env and m = 1]
    by (simp add: three)
  have pos: "(0::nat) < 3" by simp
  note inv = parent_invariant [where max_iters = 3 and p = "planar [0, 0] [1, 1]"
      and t = "init_tree (planar [0, 0] [1, 1]) 3" and ext = open_env and eps = 2 and gb = 1
      and g = "\<lambda>i. 0" and t' = "\<lparr>V = [[0, 0], [1, 1], [0, 0]], P = [- 1, 0, - 1], n = 2\<rparr>"
      and g' = "\<lambda>i. 0" and po = "Some [[0, 0], [1, 1]]" and x_new = "[1, 1]" and idx_near = 0
      and out = "\<lparr>success = True,
                  final_tree = \<lparr>V = [[0, 0], [1, 1], [0, 0]], P = [- 1, 0, - 1], n = 2\<rparr>,
                  solution_path = Some [[0, 0], [1, 1]], np_random = (\<lambda>i. 0)\<rparr>"]
  from inv pos have a: "tables_ok (init_tree (planar [0, 0] [1, 1]) 3) \<and>
      parents_ok (init_tree (planar [0, 0] [1, 1]) 3)"
    by blast
  with inv have b: "parents_ok ((init_tree (planar [0, 0] [1, 1]) 3)
     \<lparr>V := (V (init_tree (planar [0, 0] [1, 1]) 3))[n (init_tree (planar [0, 0] [1, 1]) 3) := [1, 1]],
      P := (P (init_tree (planar [0, 0] [1, 1]) 3))[n (init_tree (planar [0, 0] [1, 1]) 3) := int 0]\<rparr>)"
    by blast
  from a inv it have "parents_ok \<lparr>V = [[0, 0], [1, 1], [0, 0]], P = [- 1, 0, - 1], n = 2\<rparr>"
    by blast
  moreover from inv run
  have "parents_ok (final_tree \<lparr>success = True,
                  final_tree = \<lparr>V = [[0, 0], [1, 1], [0, 0]], P = [- 1, 0, - 1], n = 2\<rparr>,
                  solution_path = Some [[0, 0], [1, 1]], np_random = (\<lambda>i. 0)\<rparr>)"
    by blast
  ultimately show ?thesis using a b by blast
qed

text \<open>
  Claim C9. The goal test is made on the node a pass has just appended and nowhere else:
  whenever \<^verbatim>\<open>solve\<close> ends with success, the tree has at least two nodes and its last
  node is the goal. This holds for every initial state of the goal's dimension, the goal
  itself among them: with \<open>x_init = x_goal\<close> there is no success without a pass that
  appends a copy of the goal.
\<close>

theorem goal_test_only_on_appended_nodes:
  assumes "solve ext p eps max_iters gb g = Some (Inr out)" and "success out"
    and "length (x_goal p) = length (x_init p)"
  shows "2 \<le> n (final_tree out) \<and> V (final_tree out) ! (n (final_tree out) - 1) = x_goal p"
proof -
  from assms(1) have pos: "0 < max_iters"
    by (auto simp: solve_def split: if_splits)
  with assms(1) have loop: "for_loop ext p eps gb max_iters (init_tree p max_iters) g = Some (Inr out)"
    by (simp add: solve_def)
  from for_loop_outcome [OF init_tree_ok(1,2) [OF pos] loop] assms(2)
  have "n (init_tree p max_iters) < n (final_tree out)" by simp
  then have two: "2 \<le> n (final_tree out)" by (simp add: init_tree_def)
  from for_loop_success [OF loop assms(2)] obtain t0 idx where
    "append_node (length (x_init p)) t0 (x_goal p) idx = Inr (final_tree out)" by blast
  then have "final_tree out = \<lparr>V = (V t0)[n t0 := x_goal p], P = (P t0)[n t0 := int idx],
                               n = Suc (n t0)\<rparr>" and "n t0 < length (V t0)"
    using assms(3) by (auto simp: append_node_def split: if_splits)
  then have "V (final_tree out) ! (n (final_tree out) - 1) = x_goal p"
    by simp
  with two show ?thesis by simp
qed

theorem goal_test_only_on_appended_nodes_witness:
  "solve open_env (planar [0, 0] [0, 0]) 2 3 1 (\<lambda>i. 0) =
     Some (Inr \<lparr>success = True,
                final_tree = \<lparr>V = [[0, 0], [0, 0], [0, 0]], P = [- 1, 0, - 1], n = 2\<rparr>,
                solution_path = Some [[0, 0]], np_random = (\<lambda>i. 0)\<rparr>) \<and>
   (2::nat) \<le> 2 \<and> [[0, 0], [0, 0], [0, 0 :: real]] ! (2 - 1) = x_goal (planar [0, 0] [0, 0])"
proof -
  have three: "(3::nat) = Suc (Suc 1)" by simp
  have z: "(0::real) < 1" "(0::real) < 2" by simp_all
  have run: "solve open_env (planar [0, 0] [0, 0]) 2 3 1 (\<lambda>i. 0) =
     Some (Inr \<lparr>success = True,
                final_tree = \<lparr>V = [[0, 0], [0, 0], [0, 0]], P = [- 1, 0, - 1], n = 2\<rparr>,
                solution_path = Some [[0, 0]], np_random = (\<lambda>i. 0)\<rparr>)"
    using z goal_pass_same [where g = "\<lambda>i. 0" and gb = 1 and eps = 2 and ext = open_env and m = 1]
    by (simp add: three solve_def)
  have len: "length (x_goal (planar [0, 0] [0, 0])) = length (x_init (planar [0, 0] [0, 0]))"
    by (simp add: planar_def)
  from goal_test_only_on_appended_nodes [OF run _ len] run show ?thesis by simp
qed

text \<open>
  Claim C8 (Scenario A). Straight-line steering, no obstacles, \<open>x_init = (0, 0)\<close>,
  \<open>x_goal = (1, 1)\<close>, \<open>eps = 2\<close>, \<open>goal_bias = 1\<close>, \<open>max_iters = 10\<close>: whatever
  the generator draws (a value below 1), the first pass samples the goal, steering snaps
  to it, the motion is free, and \<^verbatim>\<open>solve\<close> ends with success after that one draw, with
  a tree of two nodes and the path \<open>[(0, 0), (1, 1)]\<close>.
\<close>

theorem scenario_A_first_pass_success:
  assumes "g 0 < 1"
  shows "solve ext (planar [0, 0] [1, 1]) 2 10 1 g =
         Some (Inr \<lparr>success = True,
                    final_tree = \<lparr>V = [0, 0] # [1, 1] # replicate 8 [0, 0],
                                  P = - 1 # 0 # replicate 8 (- 1), n = 2\<rparr>,
                    solution_path = Some [[0, 0], [1, 1]],
                    np_random = (\<lambda>i. g (Suc i))\<rparr>)"
proof -
  have "(10::nat) = Suc (Suc 8)" by simp
  then show ?thesis
    using assms scenario_A_run [where g = g and gb = 1 and ext = ext and m = 8] by simp
qed

theorem scenario_A_first_pass_success_witness:
  "solve open_env (planar [0, 0] [1, 1]) 2 10 1 (\<lambda>i. 1 / 2) =
         Some (Inr \<lparr>success = True,
                    final_tree = \<lparr>V = [0, 0] # [1, 1] # replicate 8 [0, 0],
                                  P = - 1 # 0 # replicate 8 (- 1), n = 2\<rparr>,
                    solution_path = Some [[0, 0], [1, 1]],
                    np_random = (\<lambda>i. 1 / 2)\<rparr>)"
proof -
  have "(1 / 2 :: real) < 1" by simp
  from scenario_A_first_pass_success [where g = "\<lambda>i. 1 / 2" and ext = open_env, OF this] show ?thesis .
qed

text \<open>
  Claim C2. The loop makes \<open>max_iters\<close> passes and the tree starts with one node, so
  \<open>max_iters\<close> accepted extensions need \<open>max_iters + 1\<close> rows; the tables have
  \<open>max_iters\<close>. Straight-line steering, no obstacles, \<open>x_init = (0, 0)\<close>,
  \<open>x_goal = (3, 0)\<close>, \<open>eps = 1\<close>, \<open>goal_bias = 1\<close>, \<open>max_iters = 2\<close>: the first
  pass appends \<open>(1, 0)\<close> as node 1, the second steers to \<open>(2, 0)\<close>, finds the motion
  free and writes row 2 of a table of two rows, which raises IndexError.
\<close>

theorem full_tree_overflow:
  "solve open_env (planar [0, 0] [3, 0]) 1 2 1 (\<lambda>i. 0) = Some (Inl IndexError)"
proof -
  let ?p = "planar [0, 0] [3, 0]"
  let ?g = "\<lambda>i::nat. 0::real"
  let ?t0 = "\<lparr>V = [[0, 0], [0, 0]], P = [- 1, - 1], n = 1\<rparr>"
  let ?t1 = "\<lparr>V = [[0, 0], [1, 0]], P = [- 1, 0], n = 2\<rparr>"
  have t0: "init_tree ?p (Suc (Suc 0)) = ?t0"
    by (simp add: init_tree_def planar_def)
  have s: "sample ?p 1 ?g = ([3, 0], ?g)"
    using sample_goal [where g = ?g and gb = 1 and p = ?p] by (simp add: planar_def)
  have at: "np_arctan2 0 3 = 0" "np_arctan2 0 2 = 0"
    by (simp_all add: np_arctan2_def)
  have fn1: "find_nearest open_env (cls ?p) (take (n ?t0) (V ?t0)) (fst (sample ?p 1 ?g)) = Inr 0"
    unfolding s by (simp add: planar_def np_sub_def np_norm_def np_argmin_def)
  have st1: "steer_towards open_env (cls ?p) (V ?t0 ! 0) (fst (sample ?p 1 ?g)) 1 = Inr [1, 0]"
    unfolding s by (simp add: planar_def np_sub_def np_norm_def at)
  have fr1: "is_free_motion open_env (cls ?p) (obstacles ?p) (V ?t0 ! 0) [1, 0] = Inr True"
    by (simp add: planar_def)
  have p1: "iteration open_env ?p 1 1 ?t0 ?g = Some (Inr (?t1, ?g, None))"
    using iteration_unfold [OF fn1 st1 fr1, unfolded s snd_conv]
    by (simp add: append_node_def planar_def)
  have fn2: "find_nearest open_env (cls ?p) (take (n ?t1) (V ?t1)) (fst (sample ?p 1 ?g)) = Inr 1"
    unfolding s by (simp add: planar_def np_sub_def np_norm_def np_argmin_def)
  have st2: "steer_towards open_env (cls ?p) (V ?t1 ! 1) (fst (sample ?p 1 ?g)) 1 = Inr [2, 0]"
    unfolding s by (simp add: planar_def np_sub_def np_norm_def at)
  have fr2: "is_free_motion open_env (cls ?p) (obstacles ?p) (V ?t1 ! 1) [2, 0] = Inr True"
    by (simp add: planar_def)
  have p2: "iteration open_env ?p 1 1 ?t1 ?g = Some (Inl IndexError)"
    using iteration_unfold [OF fn2 st2 fr2, unfolded s snd_conv]
    by (simp add: append_node_def planar_def)
  have "for_loop open_env ?p 1 1 (Suc (Suc 0)) ?t0 ?g = Some (Inl IndexError)"
    using p1 p2 by simp
  then show ?thesis
    by (simp add: solve_def t0 numeral_2_eq_2)
qed

lemma scenario_A_capacity_one:
  assumes "g 0 < 1"
  shows "solve ext (planar [0, 0] [1, 1]) 2 1 1 g = Some (Inl IndexError)"
proof -
  let ?p = "planar [0, 0] [1, 1]"
  let ?t0 = "\<lparr>V = [[0, 0]], P = [- 1], n = 1\<rparr>"
  have t0: "init_tree ?p (Suc 0) = ?t0"
    by (simp add: init_tree_def planar_def)
  have s: "sample ?p 1 g = ([1, 1], \<lambda>i. g (Suc i))"
    using assms sample_goal [where g = g and gb = 1 and p = ?p] by (simp add: planar_def)
  have fn1: "find_nearest ext (cls ?p) (take (n ?t0) (V ?t0)) (fst (sample ?p 1 g)) = Inr 0"
    unfolding s by (simp add: planar_def np_sub_def np_norm_def np_argmin_def)
  have st1: "steer_towards ext (cls ?p) (V ?t0 ! 0) (fst (sample ?p 1 g)) 2 = Inr [1, 1]"
    unfolding s using sqrt2_lt_2 by (simp add: planar_def np_sub_def np_norm_def)
  have fr1: "is_free_motion ext (cls ?p) (obstacles ?p) (V ?t0 ! 0) [1, 1] = Inr True"
    by (simp add: planar_def)
  have "iteration ext ?p 2 1 ?t0 g = Some (Inl IndexError)"
    using iteration_unfold [OF fn1 st1 fr1]
    by (simp add: append_node_def planar_def)
  then show ?thesis
    by (simp add: solve_def t0)
qed

text \<open>
  Claim C1. A call of \<^verbatim>\<open>solve\<close> is to end in one of two ways, with success, the tree
  and the path, or with the tree alone. Scenario A shows that the code does not always
  get there: with room for two nodes the first pass reaches the goal and the call ends
  with success, the tree and the path \<open>[(0, 0), (1, 1)]\<close>; with \<open>max_iters = 1\<close>
  the same pass finds the same free motion to the goal, but the table has the root's row
  only, the assignment of line 91 raises IndexError before the goal test of line 96 is
  reached, and the call ends with neither tree nor path.
\<close>

theorem success_pass_raises_on_full_tree:
  "solve open_env (planar [0, 0] [1, 1]) 2 2 1 (\<lambda>i. 1 / 2) =
     Some (Inr \<lparr>success = True,
                final_tree = \<lparr>V = [[0, 0], [1, 1]], P = [- 1, 0], n = 2\<rparr>,
                solution_path = Some [[0, 0], [1, 1]], np_random = (\<lambda>i. 1 / 2)\<rparr>) \<and>
   solve open_env (planar [0, 0] [1, 1]) 2 1 1 (\<lambda>i. 1 / 2) = Some (Inl IndexError)"
proof -
  have z: "(1 / 2 :: real) < 1" by simp
  have two: "(2::nat) = Suc (Suc 0)" by simp
  have "solve open_env (planar [0, 0] [1, 1]) 2 2 1 (\<lambda>i. 1 / 2) =
     Some (Inr \<lparr>success = True,
                final_tree = \<lparr>V = [[0, 0], [1, 1]], P = [- 1, 0], n = 2\<rparr>,
                solution_path = Some [[0, 0], [1, 1]], np_random = (\<lambda>i. 1 / 2)\<rparr>)"
    using z scenario_A_run [where g = "\<lambda>i. 1 / 2" and gb = 1 and ext = open_env and m = 0]
    by (simp add: two)
  moreover have "solve open_env (planar [0, 0] [1, 1]) 2 1 1 (\<lambda>i. 1 / 2) = Some (Inl IndexError)"
    using z scenario_A_capacity_one [where g = "\<lambda>i. 1 / 2" and ext = open_env] by simp
  ultimately show ?thesis by simp
qed

lemma chase_parents_chain:
  assumes "length Pt = length Vt"
    and "\<forall>j<k. Vt ! ancestor Pt j i \<noteq> xi \<and> 0 \<le> Pt ! ancestor Pt j i"
    and "\<forall>j\<le>k. ancestor Pt j i < length Vt"
    and "Vt ! ancestor Pt k i = xi"
  shows "chase_parents Vt Pt xi (int i) acc =
         Some (Inr (acc @ map (\<lambda>j. Vt ! ancestor Pt j i) [1..<Suc k]))"
  using assms(2-4)
proof (induction k arbitrary: i acc)
  case 0
  then show ?case
    by (subst chase_parents.simps) (simp add: in_bounds_def py_index_def)
next
  case (Suc k)
  define i' where "i' = nat (Pt ! i)"
  from Suc.prems(1) have here: "Vt ! i \<noteq> xi" "0 \<le> Pt ! i"
    by (auto dest: spec [of _ 0])
  from Suc.prems(2) have i: "i < length Vt"
    by (auto dest: spec [of _ 0])
  from Suc.prems(2) have i'_lt: "i' < length Vt"
    by (auto dest: spec [of _ 1] simp: i'_def)
  have par: "Pt ! i = int i'" using here(2) by (simp add: i'_def)
  have shift: "ancestor Pt j i' = ancestor Pt (Suc j) i" for j
    by (simp add: i'_def)
  have a: "\<forall>j<k. Vt ! ancestor Pt j i' \<noteq> xi \<and> 0 \<le> Pt ! ancestor Pt j i'"
    using Suc.prems(1) by (auto simp: shift)
  have b: "\<forall>j\<le>k. ancestor Pt j i' < length Vt"
    using Suc.prems(2) by (auto simp: shift)
  have c: "Vt ! ancestor Pt k i' = xi"
    using Suc.prems(3) by (simp add: shift)
  have lst: "map (\<lambda>j. Vt ! ancestor Pt j i) [1..<Suc (Suc k)] =
             Vt ! i' # map (\<lambda>j. Vt ! ancestor Pt j i') [1..<Suc k]"
  proof -
    have "[1..<Suc (Suc k)] = 1 # map Suc [1..<Suc k]"
      by (simp add: map_Suc_upt upt_conv_Cons del: upt_Suc)
    then show ?thesis
      by (simp add: shift i'_def comp_def del: upt_Suc)
  qed
  have "(acc @ [Vt ! i']) @ map (\<lambda>j. Vt ! ancestor Pt j i') [1..<Suc k] =
        acc @ map (\<lambda>j. Vt ! ancestor Pt j i) [1..<Suc (Suc k)]"
    unfolding lst by simp
  with Suc.IH [OF a b c, of "acc @ [Vt ! i']"]
  have "chase_parents Vt Pt xi (int i') (acc @ [Vt ! i']) =
        Some (Inr (acc @ map (\<lambda>j. Vt ! ancestor Pt j i) [1..<Suc (Suc k)]))"
    by (simp only:)
  then show ?case
    using here i i'_lt par assms(1)
    by (subst chase_parents.simps) (simp add: in_bounds_def py_index_def)
qed

text \<open>
  Claim C10. The path is rebuilt from the node appended last, along the parent links,
  and the walk stops at the first node whose value is \<open>x_init\<close>, whatever its index:
  if the \<open>k\<close>-th ancestor of the last node is the first one on the chain with that
  value, the path is that ancestor, the nodes between, and the goal, and no node beyond
  it, the root included when the ancestor is not the root.
\<close>

theorem path_stops_at_first_init_value:
  assumes "length (P t) = length (V t)" and "0 < n t"
    and "\<forall>j<k. V t ! ancestor (P t) j (n t - 1) \<noteq> x_init p \<and> 0 \<le> P t ! ancestor (P t) j (n t - 1)"
    and "\<forall>j\<le>k. ancestor (P t) j (n t - 1) < length (V t)"
    and "V t ! ancestor (P t) k (n t - 1) = x_init p"
  shows "reconstruct p t =
         Some (Inr (rev (map (\<lambda>j. V t ! ancestor (P t) j (n t - 1)) [1..<Suc k]) @ [x_goal p]))"
proof -
  from assms(2) have eq: "int (n t) - 1 = int (n t - 1)" by simp
  note ch = chase_parents_chain [OF assms(1,3,4,5), of "[x_goal p]"]
  show ?thesis
    unfolding reconstruct_def eq ch by (simp del: upt_Suc)
qed

theorem path_stops_at_first_init_value_witness:
  "ancestor [- 1, 0, 1] 1 (3 - 1) = 1 \<and>
   reconstruct (planar [0, 0] [1, 1]) \<lparr>V = [[0, 0], [0, 0], [1, 1]], P = [- 1, 0, 1], n = 3\<rparr> =
     Some (Inr [[0, 0], [1, 1]]) \<and>
   reconstruct (planar [0, 0] [0, 0]) \<lparr>V = [[0, 0], [0, 0], [0, 0]], P = [- 1, 0, - 1], n = 2\<rparr> =
     Some (Inr [[0, 0]])"
proof -
  let ?t = "\<lparr>V = [[0, 0], [0, 0], [1, 1]], P = [- 1, 0, 1], n = 3\<rparr>"
  let ?p = "planar [0, 0] [1, 1]"
  have a1: "ancestor [- 1, 0, 1] 1 (3 - 1) = 1" by simp
  have len: "length (P ?t) = length (V ?t)" and pos: "0 < n ?t" by simp_all
  have c1: "\<forall>j<1. V ?t ! ancestor (P ?t) j (n ?t - 1) \<noteq> x_init ?p
              \<and> 0 \<le> P ?t ! ancestor (P ?t) j (n ?t - 1)"
    by (simp add: planar_def)
  have c2: "\<forall>j\<le>1. ancestor (P ?t) j (n ?t - 1) < length (V ?t)"
    by (simp add: le_Suc_eq)
  have c3: "V ?t ! ancestor (P ?t) 1 (n ?t - 1) = x_init ?p"
    by (simp add: planar_def)
  from path_stops_at_first_init_value [OF len pos c1 c2 c3]
  have r1: "reconstruct ?p ?t = Some (Inr [[0, 0], [1, 1]])"
    by (simp add: planar_def)
  let ?u = "\<lparr>V = [[0, 0], [0, 0], [0, 0]], P = [- 1, 0, - 1], n = 2\<rparr>"
  let ?q = "planar [0, 0] [0, 0]"
  have len': "length (P ?u) = length (V ?u)" and pos': "0 < n ?u" by simp_all
  have d1: "\<forall>j<0. V ?u ! ancestor (P ?u) j (n ?u - 1) \<noteq> x_init ?q
              \<and> 0 \<le> P ?u ! ancestor (P ?u) j (n ?u - 1)"
    by simp
  have d2: "\<forall>j\<le>0. ancestor (P ?u) j (n ?u - 1) < length (V ?u)"
    by simp
  have d3: "V ?u ! ancestor (P ?u) 0 (n ?u - 1) = x_init ?q"
    by (simp add: planar_def)
  from path_stops_at_first_init_value [OF len' pos' d1 d2 d3]
  have r2: "reconstruct ?q ?u = Some (Inr [[0, 0]])"
    by (simp add: planar_def)
  from a1 r1 r2 show ?thesis by simp
qed

section \<open>The draws of a run\<close>

lemma sample_box_fst_cong:
  "\<forall>i<length bs. g1 i = g2 i \<Longrightarrow> fst (sample_box bs g1) = fst (sample_box bs g2)"
proof (induction bs arbitrary: g1 g2)
  case Nil
  then show ?case by simp
next
  case (Cons b bs)
  obtain lo hi where b: "b = (lo, hi)" by (cases b)
  have "fst (sample_box bs (\<lambda>i. g1 (Suc i))) = fst (sample_box bs (\<lambda>i. g2 (Suc i)))"
    by (rule Cons.IH) (use Cons.prems in auto)
  moreover have "g1 0 = g2 0" using Cons.prems by simp
  ultimately show ?case
    by (simp add: b uniform_def random_sample_def)
qed

lemma sample_box_snd: "snd (sample_box bs g) = (\<lambda>i. g (i + length bs))"
proof (induction bs arbitrary: g)
  case Nil
  then show ?case by simp
next
  case (Cons b bs)
  obtain lo hi where b: "b = (lo, hi)" by (cases b)
  show ?case
    by (simp add: b uniform_def random_sample_def Cons.IH)
qed

lemma sample_cong:
  assumes "\<forall>i<1 + length (zip (statespace_lo p) (statespace_hi p)). g1 i = g2 i"
  shows "fst (sample p gb g1) = fst (sample p gb g2)"
    and "\<exists>c. 1 \<le> c \<and> c \<le> 1 + length (zip (statespace_lo p) (statespace_hi p)) \<and>
             snd (sample p gb g1) = (\<lambda>i. g1 (i + c)) \<and>
             snd (sample p gb g2) = (\<lambda>i. g2 (i + c))"
proof -
  let ?bs = "zip (statespace_lo p) (statespace_hi p)"
  from assms have z: "g1 0 = g2 0" by simp
  have box: "fst (sample_box ?bs (\<lambda>i. g1 (Suc i))) = fst (sample_box ?bs (\<lambda>i. g2 (Suc i)))"
    by (rule sample_box_fst_cong) (use assms in auto)
  show "fst (sample p gb g1) = fst (sample p gb g2)"
    using z box by (simp add: sample_def random_sample_def)
  show "\<exists>c. 1 \<le> c \<and> c \<le> 1 + length ?bs \<and>
             snd (sample p gb g1) = (\<lambda>i. g1 (i + c)) \<and>
             snd (sample p gb g2) = (\<lambda>i. g2 (i + c))"
  proof (cases "g1 0 < gb")
    case True
    then have "snd (sample p gb g1) = (\<lambda>i. g1 (i + 1)) \<and> snd (sample p gb g2) = (\<lambda>i. g2 (i + 1))"
      using z by (simp add: sample_def random_sample_def)
    then show ?thesis by (intro exI [of _ 1]) simp
  next
    case False
    then have "snd (sample p gb g1) = (\<lambda>i. g1 (i + (1 + length ?bs))) \<and>
               snd (sample p gb g2) = (\<lambda>i. g2 (i + (1 + length ?bs)))"
      using z by (simp add: sample_def random_sample_def sample_box_snd)
    then show ?thesis by (intro exI [of _ "1 + length ?bs"]) simp
  qed
qed

lemma for_loop_deterministic:
  assumes "\<forall>i<k * (1 + length (zip (statespace_lo p) (statespace_hi p))). g1 i = g2 i"
  shows "observable (for_loop ext p eps gb k t g1) = observable (for_loop ext p eps gb k t g2)"
  using assms
proof (induction k arbitrary: t g1 g2)
  case 0
  then show ?case by (simp add: observable_def)
next
  case (Suc k)
  let ?d = "1 + length (zip (statespace_lo p) (statespace_hi p))"
  have pre: "\<forall>i<?d. g1 i = g2 i"
    using Suc.prems by simp
  from sample_cong [OF pre, of gb] obtain c where
    x: "fst (sample p gb g1) = fst (sample p gb g2)" and c: "c \<le> ?d"
    and s1: "snd (sample p gb g1) = (\<lambda>i. g1 (i + c))"
    and s2: "snd (sample p gb g2) = (\<lambda>i. g2 (i + c))"
    by blast
  have rest: "\<forall>i<k * ?d. g1 (i + c) = g2 (i + c)"
  proof (intro allI impI)
    fix i assume "i < k * ?d"
    with c have "i + c < Suc k * ?d" by simp
    with Suc.prems show "g1 (i + c) = g2 (i + c)" by blast
  qed
  note ih = Suc.IH [of "\<lambda>i. g1 (i + c)" "\<lambda>i. g2 (i + c)", OF rest]
  show ?case
  proof (cases "extend_tree ext p eps t (fst (sample p gb g2))")
    case None
    then show ?thesis by (simp add: iteration_def x observable_def)
  next
    case (Some r)
    show ?thesis
    proof (cases r)
      case (Inl e)
      with Some show ?thesis by (simp add: iteration_def x observable_def)
    next
      case (Inr res)
      obtain t' po where "res = (t', po)" by (cases res)
      with Some Inr have ex: "extend_tree ext p eps t (fst (sample p gb g2)) = Some (Inr (t', po))"
        by simp
      show ?thesis
      proof (cases po)
        case None
        then show ?thesis
          using ex ih [of t'] by (simp add: iteration_def x s1 s2)
      next
        case (Some path)
        then show ?thesis
          using ex by (simp add: iteration_def x observable_def)
      qed
    qed
  qed
qed

lemma for_loop_generator:
  assumes "for_loop ext p eps gb k t g = Some (Inr out)"
  shows "\<exists>c. (0 < k \<longrightarrow> 1 \<le> c) \<and> np_random out = (\<lambda>i. g (i + c))"
  using assms
proof (induction k arbitrary: t g)
  case 0
  then show ?case by (intro exI [of _ 0]) auto
next
  case (Suc k)
  from Suc.prems obtain t' g' po where
    it: "iteration ext p eps gb t g = Some (Inr (t', g', po))"
    by (auto split: option.splits sum.splits)
  then have g': "g' = snd (sample p gb g)"
    by (simp add: iteration_extend)
  from sample_cong(2) [of p g g gb] obtain c where c: "1 \<le> c" "g' = (\<lambda>i. g (i + c))"
    unfolding g' by auto
  show ?case
  proof (cases po)
    case None
    with it Suc.prems have "for_loop ext p eps gb k t' g' = Some (Inr out)" by simp
    from Suc.IH [OF this] obtain c' where "np_random out = (\<lambda>i. g' (i + c'))" by blast
    then have "np_random out = (\<lambda>i. g (i + (c' + c)))"
      by (simp add: c(2) add.assoc)
    with c(1) show ?thesis by (intro exI [of _ "c' + c"]) simp
  next
    case (Some path)
    with it Suc.prems have "np_random out = g'" by auto
    with c show ?thesis by (intro exI [of _ c]) simp
  qed
qed

text \<open>
  Claim C5, as amended. Two runs of \<^verbatim>\<open>solve\<close> on the same planner with the same
  arguments, started with numpy's global generator in states that hand out the same
  draws (as many as the run can consume: one per pass and one more per dimension), end
  with the same success flag, tree and path. The generator is not an argument of the
  planner: \<^verbatim>\<open>solve\<close> reads the global one and leaves it advanced, by at least one draw.
\<close>

theorem same_draws_same_run:
  assumes "\<forall>i<max_iters * (1 + length (zip (statespace_lo p) (statespace_hi p))). g i = h i"
  shows "observable (solve ext p eps max_iters gb g) = observable (solve ext p eps max_iters gb h) \<and>
         (solve ext p eps max_iters gb g = Some (Inr out) \<longrightarrow>
            (\<exists>c\<ge>1. np_random out = (\<lambda>i. g (i + c))))"
proof
  show "observable (solve ext p eps max_iters gb g) = observable (solve ext p eps max_iters gb h)"
    using for_loop_deterministic [OF assms] by (simp add: solve_def)
  show "solve ext p eps max_iters gb g = Some (Inr out) \<longrightarrow>
          (\<exists>c\<ge>1. np_random out = (\<lambda>i. g (i + c)))"
  proof
    assume s: "solve ext p eps max_iters gb g = Some (Inr out)"
    then have pos: "0 < max_iters"
      by (auto simp: solve_def split: if_splits)
    with s have "for_loop ext p eps gb max_iters (init_tree p max_iters) g = Some (Inr out)"
      by (simp add: solve_def)
    from for_loop_generator [OF this] pos show "\<exists>c\<ge>1. np_random out = (\<lambda>i. g (i + c))"
      by blast
  qed
qed


theorem same_draws_same_run_witness:
  "observable (solve open_env (planar [0, 0] [1, 1]) 2 3 1 (\<lambda>i. if i < 9 then 0 else 1)) =
   observable (solve open_env (planar [0, 0] [1, 1]) 2 3 1 (\<lambda>i. 0)) \<and>
   observable (solve open_env (planar [0, 0] [1, 1]) 2 3 1 (\<lambda>i. 0)) =
     Some (Inr (True, \<lparr>V = [[0, 0], [1, 1], [0, 0]], P = [- 1, 0, - 1], n = 2\<rparr>,
                Some [[0, 0], [1, 1]]))"
proof -
  have three: "(3::nat) = Suc (Suc 1)" by simp
  have z: "(0::real) < 1" by simp
  have run: "solve open_env (planar [0, 0] [1, 1]) 2 3 1 (\<lambda>i. 0) =
             Some (Inr \<lparr>success = True,
                        final_tree = \<lparr>V = [[0, 0], [1, 1], [0, 0]], P = [- 1, 0, - 1], n = 2\<rparr>,
                        solution_path = Some [[0, 0], [1, 1]], np_random = (\<lambda>i. 0)\<rparr>)"
    using z scenario_A_run [where g = "\<lambda>i. 0" and gb = 1 and ext = open_env and m = 1]
    by (simp add: three)
  have agree: "\<forall>i<3 * (1 + length (zip (statespace_lo (planar [0, 0] [1, 1]))
                                        (statespace_hi (planar [0, 0] [1, 1])))).
                 (if i < 9 then 0 else 1) = (0::real)"
    by (simp add: planar_def)
  from same_draws_same_run [where g = "\<lambda>i. if i < 9 then 0 else 1" and h = "\<lambda>i. 0",
      OF agree, of open_env 2 1]
  have "observable (solve open_env (planar [0, 0] [1, 1]) 2 3 1 (\<lambda>i. if i < 9 then 0 else 1)) =
        observable (solve open_env (planar [0, 0] [1, 1]) 2 3 1 (\<lambda>i. 0))"
    by blast
  then show ?thesis
    by (simp add: run observable_def)
qed

lemma second_call_run:
  "solve open_env (planar [0, 0] [1, 1]) 2 3 (1 / 2) (\<lambda>i. burst (Suc i)) =
   Some (Inr \<lparr>success = True,
              final_tree = \<lparr>V = [[0, 0], [0, 0], [1, 1]], P = [- 1, 0, 0], n = 3\<rparr>,
              solution_path = Some [[0, 0], [1, 1]],
              np_random = (\<lambda>i. burst (Suc (Suc (Suc (Suc (Suc i))))))\<rparr>)"
proof -
  let ?p = "planar [0, 0] [1, 1]"
  let ?g1 = "\<lambda>i. burst (Suc i)"
  let ?g2 = "\<lambda>i. burst (Suc (Suc (Suc (Suc i))))"
  let ?g3 = "\<lambda>i. burst (Suc (Suc (Suc (Suc (Suc i)))))"
  let ?t0 = "\<lparr>V = [[0, 0], [0, 0], [0, 0]], P = [- 1, - 1, - 1], n = 1\<rparr>"
  let ?t1 = "\<lparr>V = [[0, 0], [0, 0], [0, 0]], P = [- 1, 0, - 1], n = 2\<rparr>"
  let ?t2 = "\<lparr>V = [[0, 0], [0, 0], [1, 1]], P = [- 1, 0, 0], n = 3\<rparr>"
  have t0: "init_tree ?p (Suc (Suc (Suc 0))) = ?t0"
    by (simp add: init_tree_def planar_def)
  have s1: "sample ?p (1 / 2) ?g1 = ([0, 0], ?g2)"
    by (simp add: sample_def random_sample_def uniform_def planar_def burst_def)
  have s2: "sample ?p (1 / 2) ?g2 = ([1, 1], ?g3)"
    by (simp add: sample_def random_sample_def planar_def burst_def)
  have fn1: "find_nearest open_env (cls ?p) (take (n ?t0) (V ?t0)) (fst (sample ?p (1 / 2) ?g1)) = Inr 0"
    unfolding s1 by (simp add: planar_def np_sub_def np_norm_def np_argmin_def)
  have st1: "steer_towards open_env (cls ?p) (V ?t0 ! 0) (fst (sample ?p (1 / 2) ?g1)) 2 = Inr [0, 0]"
    unfolding s1 by (simp add: planar_def np_sub_def np_norm_def)
  have fr1: "is_free_motion open_env (cls ?p) (obstacles ?p) (V ?t0 ! 0) [0, 0] = Inr True"
    by (simp add: planar_def)
  have p1: "iteration open_env ?p 2 (1 / 2) ?t0 ?g1 = Some (Inr (?t1, ?g2, None))"
    using iteration_unfold [OF fn1 st1 fr1, unfolded s1 snd_conv]
    by (simp add: append_node_def planar_def)
  have fn2: "find_nearest open_env (cls ?p) (take (n ?t1) (V ?t1)) (fst (sample ?p (1 / 2) ?g2)) = Inr 0"
    unfolding s2 by (simp add: planar_def np_sub_def np_norm_def np_argmin_def)
  have st2: "steer_towards open_env (cls ?p) (V ?t1 ! 0) (fst (sample ?p (1 / 2) ?g2)) 2 = Inr [1, 1]"
    unfolding s2 using sqrt2_lt_2 by (simp add: planar_def np_sub_def np_norm_def)
  have fr2: "is_free_motion open_env (cls ?p) (obstacles ?p) (V ?t1 ! 0) [1, 1] = Inr True"
    by (simp add: planar_def)
  have ch: "chase_parents (V ?t2) (P ?t2) [0, 0] 2 [[1, 1]] = Some (Inr [[1, 1], [0, 0]])"
    by (subst chase_parents.simps, simp add: in_bounds_def py_index_def)
       (subst chase_parents.simps, simp add: in_bounds_def py_index_def)
  have rc: "reconstruct ?p ?t2 = Some (Inr [[0, 0], [1, 1]])"
    using ch by (simp add: reconstruct_def planar_def)
  have ap: "append_node (length (x_init ?p)) ?t1 [1, 1] 0 = Inr ?t2"
    by (simp add: append_node_def planar_def)
  have p2: "iteration open_env ?p 2 (1 / 2) ?t1 ?g2 = Some (Inr (?t2, ?g3, Some [[0, 0], [1, 1]]))"
    using iteration_unfold [OF fn2 st2 fr2, unfolded s2 snd_conv ap] rc
    by (simp add: planar_def)
  have "for_loop open_env ?p 2 (1 / 2) (Suc (Suc (Suc 0))) ?t0 ?g1 =
        Some (Inr \<lparr>success = True, final_tree = ?t2, solution_path = Some [[0, 0], [1, 1]],
                   np_random = ?g3\<rparr>)"
    using p1 p2 by simp
  then show ?thesis
    by (simp add: solve_def t0 numeral_3_eq_3)
qed

text \<open>
  Claim C5 as stated fails in its second half: the planner is given no generator, it
  draws from the one global to the process and leaves it changed. The same call, on the
  same planner with the same arguments, made twice in a row gives two different trees:
  the first finds the goal in one pass, the second, reading on from where the first
  stopped, needs two.
\<close>

theorem global_generator_counterexample:
  "observable (solve open_env (planar [0, 0] [1, 1]) 2 3 (1 / 2) burst) \<noteq>
   observable (solve_again open_env (planar [0, 0] [1, 1]) 2 3 (1 / 2) burst)"
proof -
  have three: "(3::nat) = Suc (Suc 1)" by simp
  have z: "burst 0 < 1 / 2" by (simp add: burst_def)
  have first: "solve open_env (planar [0, 0] [1, 1]) 2 3 (1 / 2) burst =
             Some (Inr \<lparr>success = True,
                        final_tree = \<lparr>V = [[0, 0], [1, 1], [0, 0]], P = [- 1, 0, - 1], n = 2\<rparr>,
                        solution_path = Some [[0, 0], [1, 1]],
                        np_random = (\<lambda>i. burst (Suc i))\<rparr>)"
    using z scenario_A_run [where g = burst and gb = "1 / 2" and ext = open_env and m = 1]
    by (simp add: three)
  have second: "solve_again open_env (planar [0, 0] [1, 1]) 2 3 (1 / 2) burst =
      solve open_env (planar [0, 0] [1, 1]) 2 3 (1 / 2) (\<lambda>i. burst (Suc i))"
    by (simp add: solve_again_def first)
  show ?thesis
    unfolding second second_call_run unfolding first by (simp add: observable_def)
qed

end
